theory Spec2Isabelle
  imports Main
begin

section \<open>Python string primitives used by auto\_lims.py\<close>

text \<open>
  A Python \<open>str\<close> is a sequence of code points. The model uses \<open>string\<close>, whose
  characters carry the code points 0 to 255, so every statement below is about headers and
  cells made of Latin-1 characters. \<open>isspace\<close> and \<open>lower_char\<close> are the restrictions of
  \<open>str.isspace\<close> and \<open>str.lower\<close> to that range.
\<close>

definition isspace :: "char \<Rightarrow> bool" where
  "isspace c =
     (let n = (of_char c :: nat)
      in (9 \<le> n \<and> n \<le> 13) \<or> (28 \<le> n \<and> n \<le> 32) \<or> n = 133 \<or> n = 160)"

definition lower_char :: "char \<Rightarrow> char" where
  "lower_char c =
     (let n = (of_char c :: nat)
      in if (65 \<le> n \<and> n \<le> 90) \<or> (192 \<le> n \<and> n \<le> 222 \<and> n \<noteq> 215)
         then char_of (n + 32) else c)"

definition lower :: "string \<Rightarrow> string" where
  "lower s = map lower_char s"

definition strip :: "string \<Rightarrow> string" where
  "strip s = rev (dropWhile isspace (rev (dropWhile isspace s)))"

text \<open>\<open>s.replace(c, r)\<close> for a pattern \<open>c\<close> of one character.\<close>

definition replace :: "char \<Rightarrow> string \<Rightarrow> string \<Rightarrow> string" where
  "replace c r s = concat (map (\<lambda>x. if x = c then r else [x]) s)"

text \<open>\<open>sub in s\<close>: \<open>sub\<close> occurs in \<open>s\<close> as a contiguous block.\<close>

fun startswith :: "string \<Rightarrow> string \<Rightarrow> bool" where
  "startswith s [] = True"
| "startswith [] (p # ps) = False"
| "startswith (c # cs) (p # ps) = (c = p \<and> startswith cs ps)"

fun contains :: "string \<Rightarrow> string \<Rightarrow> bool" where
  "contains [] sub = (sub = [])"
| "contains (c # cs) sub = (startswith (c # cs) sub \<or> contains cs sub)"

section \<open>Helper functions of the pipeline\<close>

text \<open>
  \<open>clean_name(name)\<close>: \<open>not name\<close> holds for \<open>None\<close> and for the empty string; the
  guard is evaluated on the raw header, before any cleaning.
\<close>

definition clean_name :: "string option \<Rightarrow> string" where
  "clean_name name =
     (case name of
        None \<Rightarrow> ''unknown_col''
      | Some s \<Rightarrow>
          if s = [] then ''unknown_col''
          else replace CHR '')'' []
                (replace CHR ''('' []
                  (replace CHR ''+'' ''plus_''
                    (replace CHR ''/'' ''_''
                      (replace CHR ''.'' ''_''
                        (replace CHR ''-'' ''_''
                          (replace CHR '' '' ''_''
                            (lower (strip s)))))))))"

definition null_markers :: "string list" where
  "null_markers = ['''', ''N/A'', ''n/a'', ''NaN'', ''nan'']"

definition parse_value :: "string option \<Rightarrow> string option" where
  "parse_value v' =
     (case v' of
        None \<Rightarrow> None
      | Some s \<Rightarrow> (let v = strip s in if v \<in> set null_markers then None else Some v))"


datatype sql_type = TEXT | DOUBLE_PRECISION | TIMESTAMP

text \<open>
  The loop of \<open>infer_sql_type\<close> over the column's values, with its two flags
  \<open>is_numeric\<close> and \<open>has_data\<close>. \<open>float\<close> is Python's built-in; it enters as the
  parameter \<open>parses\<close>, true of the strings on which \<open>float(v)\<close> returns and false where
  it raises \<open>ValueError\<close>. The \<open>break\<close> leaves the loop with the flags as they are.
\<close>

fun numeric_scan :: "(string \<Rightarrow> bool) \<Rightarrow> string option list \<Rightarrow> bool \<Rightarrow> bool \<Rightarrow> bool \<times> bool" where
  "numeric_scan parses [] is_numeric has_data = (is_numeric, has_data)"
| "numeric_scan parses (None # vs) is_numeric has_data =
     numeric_scan parses vs is_numeric has_data"
| "numeric_scan parses (Some v # vs) is_numeric has_data =
     (if parses v then numeric_scan parses vs is_numeric True else (False, True))"

definition infer_sql_type :: "(string \<Rightarrow> bool) \<Rightarrow> string \<Rightarrow> string option list \<Rightarrow> sql_type" where
  "infer_sql_type parses header_name vals =
     (if contains header_name ''date'' \<or> contains header_name ''time'' then TIMESTAMP
      else (case numeric_scan parses vals True False of
              (is_numeric, has_data) \<Rightarrow>
                if has_data \<and> is_numeric then DOUBLE_PRECISION else TEXT))"

section \<open>Reading one CSV file\<close>

record datetime =
  year :: nat
  month :: nat
  day :: nat
  hour :: nat
  minute :: nat
  second :: nat

text \<open>
  A value stored in a row: the result of \<open>parse_value\<close> or the file name (\<open>None\<close> or a
  \<open>str\<close>), or the \<open>datetime\<close> of the import.
\<close>

datatype cell = Val "string option" | Stamp datetime

text \<open>
  Lines 153 to 156: a short row is extended with \<open>None\<close>, the slice \<open>row[:n]\<close> keeps
  the first \<open>n\<close> cells, and each one goes through \<open>parse_value\<close>.
\<close>

definition pad_row :: "nat \<Rightarrow> string option list \<Rightarrow> string option list" where
  "pad_row n row = (if length row < n then row @ replicate (n - length row) None else row)"

definition clean_cells :: "nat \<Rightarrow> string list \<Rightarrow> string option list" where
  "clean_cells n row = map parse_value (take n (pad_row n (map Some row)))"

definition cleaned_row :: "nat \<Rightarrow> string \<Rightarrow> datetime \<Rightarrow> string list \<Rightarrow> cell list" where
  "cleaned_row n filename now row =
     map Val (clean_cells n row) @ [Val (Some filename), Stamp now]"

text \<open>The loop over the records after the header; \<open>not row\<close> skips a record of no cells.\<close>

fun read_rows :: "nat \<Rightarrow> string \<Rightarrow> datetime \<Rightarrow> string list list \<Rightarrow> cell list list" where
  "read_rows n filename now [] = []"
| "read_rows n filename now (row # rest) =
     (if row = [] then read_rows n filename now rest
      else cleaned_row n filename now row # read_rows n filename now rest)"

definition header_names :: "string list \<Rightarrow> string list" where
  "header_names original_headers =
     map (\<lambda>h. clean_name (Some h)) original_headers @ [''source_filename'', ''import_timestamp'']"

section \<open>Column types\<close>

text \<open>
  \<open>columns_data[i]\<close> collects \<open>row[i]\<close> over the rows, for the data columns only. Those
  cells are results of \<open>parse_value\<close>; \<open>text_of\<close> reads them back.
\<close>

fun text_of :: "cell \<Rightarrow> string option" where
  "text_of (Val v) = v"
| "text_of (Stamp t) = None"

definition columns_data :: "cell list list \<Rightarrow> nat \<Rightarrow> string option list" where
  "columns_data raw_data i = map (\<lambda>row. text_of (row ! i)) raw_data"

definition column_type ::
  "(string \<Rightarrow> bool) \<Rightarrow> nat \<Rightarrow> cell list list \<Rightarrow> nat \<times> string \<Rightarrow> sql_type" where
  "column_type parses num_data_cols raw_data ih =
     (case ih of (i, h) \<Rightarrow>
        if h = ''source_filename'' then TEXT
        else if h = ''import_timestamp'' then TIMESTAMP
        else if i < num_data_cols then infer_sql_type parses h (columns_data raw_data i)
        else TEXT)"

definition column_types ::
  "(string \<Rightarrow> bool) \<Rightarrow> nat \<Rightarrow> string list \<Rightarrow> cell list list \<Rightarrow> sql_type list" where
  "column_types parses num_data_cols headers raw_data =
     map (column_type parses num_data_cols raw_data) (enumerate 0 headers)"

section \<open>The world of the pipeline: files, database, clock, log\<close>

datatype dir = INPUT_DIR | PROCESSED_DIR | ERRORS_DIR

text \<open>
  A path is a directory and a file name (\<open>os.path.join\<close>); \<open>os.path.basename\<close> is the
  second component. A file's content is the list of records that \<open>csv.reader\<close> yields.
\<close>

type_synonym path = "dir \<times> string"

record database =
  tbl_columns :: "(string \<times> sql_type) list option"
  tbl_rows :: "cell list list"

text \<open>
  The calls on the connection. The database is an outside party: any of these calls
  may raise, which the environment decides through \<open>raises\<close> below.
\<close>

datatype db_op = Connect | Cursor | Create | Insert | Commit | Rollback

text \<open>
  The exceptions of the model: \<open>EmptyCsv\<close> is \<open>Exception("El archivo CSV ...")\<close> of
  line 139, \<open>NoValidData\<close> is \<open>Exception("No hay datos ...")\<close> of line 165,
  \<open>FileNotFound\<close> is raised by \<open>open\<close> or \<open>shutil.move\<close> on a missing file, and
  \<open>DbError\<close> is what a call on the database raises.
\<close>

datatype exn = EmptyCsv | NoValidData | FileNotFound | DbError db_op

datatype log_entry =
    Processing path
  | ConnectionFailed
  | Imported nat
  | ProcessError path exn
  | Moved path
  | MoveError path exn
  | CycleError exn

record world =
  files :: "path \<rightharpoonup> string list list"
  store :: database
  open_conns :: nat
  ticks :: nat
  logged :: "log_entry list"

text \<open>
  What the program does not decide: \<open>clock k\<close> is the value of the \<open>k\<close>-th call of
  \<open>datetime.now()\<close> (the field \<open>ticks\<close> counts the calls made), \<open>raises p op\<close> tells
  whether the database call \<open>op\<close> raises while the file \<open>p\<close> is processed, and
  \<open>float_ok\<close> is Python's \<open>float\<close> as above.
\<close>

record env =
  clock :: "nat \<Rightarrow> datetime"
  raises :: "path \<Rightarrow> db_op \<Rightarrow> bool"
  float_ok :: "string \<Rightarrow> bool"

text \<open>
  \<open>CREATE TABLE IF NOT EXISTS\<close> and the multi-row insert act on the state that the
  open transaction sees; the committed state \<open>store\<close> changes at \<open>commit\<close> only.
\<close>

definition create_table :: "(string \<times> sql_type) list \<Rightarrow> database \<Rightarrow> database" where
  "create_table col_defs db =
     (if tbl_columns db = None then db\<lparr>tbl_columns := Some col_defs\<rparr> else db)"

definition insert_rows :: "cell list list \<Rightarrow> database \<Rightarrow> database" where
  "insert_rows raw_data db = db\<lparr>tbl_rows := tbl_rows db @ raw_data\<rparr>"

section \<open>process\_file\<close>

text \<open>
  Step 1 (lines 131 to 165): the headers, the number of data columns and the rows, or the
  exception raised. \<open>datetime.now()\<close> is called once, before the loop over the rows.
\<close>

definition load_csv ::
  "env \<Rightarrow> path \<Rightarrow> world \<Rightarrow> (exn + string list \<times> nat \<times> cell list list) \<times> world" where
  "load_csv e file_path w =
     (case files w file_path of
        None \<Rightarrow> (Inl FileNotFound, w)
      | Some [] \<Rightarrow> (Inl EmptyCsv, w)
      | Some (original_headers # rest) \<Rightarrow>
          (let headers = header_names original_headers;
               filename = snd file_path;
               now = clock e (ticks w);
               w1 = w\<lparr>ticks := Suc (ticks w)\<rparr>;
               raw_data = read_rows (length original_headers) filename now rest
           in if raw_data = [] then (Inl NoValidData, w1)
              else (Inr (headers, length original_headers, raw_data), w1)))"

text \<open>
  The \<open>try\<close> block. The result is the value returned or the exception raised, the local
  variable \<open>conn\<close> (the state its transaction sees, once connected) and the world.
\<close>

definition pf_try ::
  "env \<Rightarrow> path \<Rightarrow> world \<Rightarrow> (exn + bool) \<times> database option \<times> world" where
  "pf_try e file_path w =
     (case load_csv e file_path w of
        (Inl x, w1) \<Rightarrow> (Inl x, None, w1)
      | (Inr (headers, num_data_cols, raw_data), w1) \<Rightarrow>
          if raises e file_path Connect
          then (Inl (DbError Connect), None, w1\<lparr>logged := logged w1 @ [ConnectionFailed]\<rparr>)
          else
            (let conn = store w1;
                 w2 = w1\<lparr>open_conns := Suc (open_conns w1)\<rparr>;
                 types = column_types (float_ok e) num_data_cols headers raw_data
             in if raises e file_path Cursor then (Inl (DbError Cursor), Some conn, w2)
                else if raises e file_path Create then (Inl (DbError Create), Some conn, w2)
                else
                  (let conn1 = create_table (zip headers types) conn
                   in if raises e file_path Insert then (Inl (DbError Insert), Some conn1, w2)
                      else
                        (let conn2 = insert_rows raw_data conn1
                         in if raises e file_path Commit
                            then (Inl (DbError Commit), Some conn2, w2)
                            else (Inr True, Some conn2,
                                  w2\<lparr>store := conn2,
                                     logged := logged w2 @ [Imported (length raw_data)]\<rparr>)))))"

text \<open>The \<open>finally\<close> clause: \<open>if conn: conn.close()\<close>.\<close>

definition pf_finally :: "database option \<Rightarrow> world \<Rightarrow> world" where
  "pf_finally conn w =
     (case conn of None \<Rightarrow> w | Some c \<Rightarrow> w\<lparr>open_conns := open_conns w - 1\<rparr>)"

text \<open>
  \<open>process_file\<close>: the \<open>except\<close> clause logs, rolls back when connected and returns
  \<open>False\<close>. An exception raised by \<open>rollback\<close> itself leaves the function after the
  \<open>finally\<close> clause has run.
\<close>

definition process_file :: "env \<Rightarrow> path \<Rightarrow> world \<Rightarrow> (exn + bool) \<times> world" where
  "process_file e file_path w =
     (case pf_try e file_path (w\<lparr>logged := logged w @ [Processing file_path]\<rparr>) of
        (Inr b, conn, w1) \<Rightarrow> (Inr b, pf_finally conn w1)
      | (Inl x, conn, w1) \<Rightarrow>
          (let w2 = w1\<lparr>logged := logged w1 @ [ProcessError file_path x]\<rparr>
           in case conn of
                None \<Rightarrow> (Inr False, pf_finally conn w2)
              | Some c \<Rightarrow>
                  if raises e file_path Rollback
                  then (Inl (DbError Rollback), pf_finally conn w2)
                  else (Inr False, pf_finally conn w2)))"

section \<open>move\_file\<close>

text \<open>
  \<open>os.path.splitext\<close> on a file name: the extension starts at the last dot, unless only
  dots come before it.
\<close>

definition splitext :: "string \<Rightarrow> string \<times> string" where
  "splitext name =
     (let ext = rev (takeWhile (\<lambda>c. c \<noteq> CHR ''.'') (rev name));
          base = take (length name - length ext - 1) name
      in if CHR ''.'' \<in> set name \<and> list_ex (\<lambda>c. c \<noteq> CHR ''.'') base
         then (base, CHR ''.'' # ext) else (name, []))"

text \<open>\<open>strftime("%Y%m%d_%H%M%S")\<close>, for a year of four digits.\<close>

definition digit :: "nat \<Rightarrow> char" where
  "digit n = ''0123456789'' ! (n mod 10)"

definition two_digits :: "nat \<Rightarrow> string" where
  "two_digits n = [digit (n div 10), digit n]"

definition strftime :: "datetime \<Rightarrow> string" where
  "strftime t =
     [digit (year t div 1000), digit (year t div 100), digit (year t div 10), digit (year t)]
     @ two_digits (month t) @ two_digits (day t) @ ''_''
     @ two_digits (hour t) @ two_digits (minute t) @ two_digits (second t)"

text \<open>
  The destination path: the file's own name, or the name with the time of the move when
  \<open>os.path.exists(dest_path)\<close>. The second component counts the clock reading.
\<close>

definition dest_path_for :: "env \<Rightarrow> string \<Rightarrow> dir \<Rightarrow> world \<Rightarrow> path \<times> world" where
  "dest_path_for e filename dest_dir w =
     (if files w (dest_dir, filename) \<noteq> None
      then (case splitext filename of
              (base, ext) \<Rightarrow>
                ((dest_dir, base @ ''_'' @ strftime (clock e (ticks w)) @ ext),
                 w\<lparr>ticks := Suc (ticks w)\<rparr>))
      else ((dest_dir, filename), w))"

text \<open>
  \<open>shutil.move(src, dst)\<close> with \<open>dst\<close> a file path: the content of \<open>src\<close> is at
  \<open>dst\<close> afterwards, replacing a file that was there, and \<open>src\<close> is gone; it raises when
  \<open>src\<close> does not exist.
\<close>

definition shutil_move :: "path \<Rightarrow> path \<Rightarrow> world \<Rightarrow> exn + world" where
  "shutil_move src dst w =
     (case files w src of
        None \<Rightarrow> Inl FileNotFound
      | Some content \<Rightarrow> Inr (w\<lparr>files := (files w)(src := None, dst \<mapsto> content)\<rparr>))"

definition move_file :: "env \<Rightarrow> path \<Rightarrow> dir \<Rightarrow> world \<Rightarrow> world" where
  "move_file e file_path dest_dir w =
     (case dest_path_for e (snd file_path) dest_dir w of
        (dest_path, w1) \<Rightarrow>
          (case shutil_move file_path dest_path w1 of
             Inr w2 \<Rightarrow> w2\<lparr>logged := logged w2 @ [Moved dest_path]\<rparr>
           | Inl x \<Rightarrow> w1\<lparr>logged := logged w1 @ [MoveError file_path x]\<rparr>))"

section \<open>main\_loop\<close>

text \<open>
  The \<open>for\<close> loop of one polling cycle over the listing of the input directory. An
  exception that leaves \<open>process_file\<close> ends the loop; the second handler of
  \<open>main_loop\<close> logs it, and the next cycle starts after the pause.
\<close>

fun for_files :: "env \<Rightarrow> string list \<Rightarrow> world \<Rightarrow> exn option \<times> world" where
  "for_files e [] w = (None, w)"
| "for_files e (file_name # rest) w =
     (if startswith file_name ''.'' then for_files e rest w
      else (case process_file e (INPUT_DIR, file_name) w of
              (Inl x, w1) \<Rightarrow> (Some x, w1)
            | (Inr success, w1) \<Rightarrow>
                for_files e rest
                  (move_file e (INPUT_DIR, file_name)
                     (if success then PROCESSED_DIR else ERRORS_DIR) w1)))"

definition poll_cycle :: "env \<Rightarrow> string list \<Rightarrow> world \<Rightarrow> world" where
  "poll_cycle e listing w =
     (case for_files e listing w of
        (None, w1) \<Rightarrow> w1
      | (Some x, w1) \<Rightarrow> w1\<lparr>logged := logged w1 @ [CycleError x]\<rparr>)"

section \<open>The Header Normalizer as the specification words it\<close>

text \<open>
  The specification of the Header Normalizer, written with operations of its own, none
  of them shared with the code above: an absent header (none, or an empty one) gives the
  constant; otherwise the name is lowercased, trimmed, the substitutions of
  \<open>header_substitutions\<close> are applied from first to last, and the parentheses are
  removed. \<open>clean_name\<close> is the code; the two are compared below.
\<close>












text \<open>
  A character that \<open>clean_name\<close> leaves as it is: not an upper-case letter and none of
  the characters that are substituted or removed.
\<close>

definition canonical_char :: "char \<Rightarrow> bool" where
  "canonical_char c = (lower_char c = c \<and> c \<notin> set '' -./+()'')"

section \<open>Sample inputs\<close>

definition noon :: datetime where
  "noon = \<lparr>year = 2024, month = 1, day = 1, hour = 12, minute = 0, second = 0\<rparr>"

definition sample_float :: "string \<Rightarrow> bool" where
  "sample_float v = (v \<in> set [''1'', ''2'', ''1.5'', ''10.5''])"

definition sample_csv :: "string list list" where
  "sample_csv =
     [[''id'', ''amount'', ''date''],
      [''1'', ''10.5'', ''2024-01-01''],
      [''2'', '''', ''2024-01-02'']]"

definition header_only_csv :: "string list list" where
  "header_only_csv = [[''id'', ''amount''], []]"

definition older_csv :: "string list list" where
  "older_csv = [[''id''], [''7'']]"

definition sample_env :: env where
  "sample_env = \<lparr>clock = (\<lambda>k. noon), raises = (\<lambda>p op. False), float_ok = sample_float\<rparr>"

text \<open>The insert of \<open>a.csv\<close> is rejected by the database; the connection stays usable.\<close>

definition insert_fails_env :: env where
  "insert_fails_env =
     sample_env\<lparr>raises := (\<lambda>p op. p = (INPUT_DIR, ''a.csv'') \<and> op = Insert)\<rparr>"

text \<open>
  The connection is lost during the insert of \<open>a.csv\<close>: the insert raises, and so does
  the rollback on the dead connection.
\<close>

definition lost_connection_env :: env where
  "lost_connection_env =
     sample_env\<lparr>raises :=
       (\<lambda>p op. p = (INPUT_DIR, ''a.csv'') \<and> (op = Insert \<or> op = Rollback))\<rparr>"

definition sample_world :: world where
  "sample_world =
     \<lparr>files = [(INPUT_DIR, ''a.csv'') \<mapsto> sample_csv, (INPUT_DIR, ''b.csv'') \<mapsto> header_only_csv],
      store = \<lparr>tbl_columns = None, tbl_rows = []\<rparr>,
      open_conns = 0, ticks = 0, logged = []\<rparr>"

text \<open>
  The processed directory already holds \<open>a.csv\<close> and a file whose name is \<open>a.csv\<close>
  with the time \<open>noon\<close> inserted.
\<close>

definition crowded_world :: world where
  "crowded_world =
     \<lparr>files = [(INPUT_DIR, ''a.csv'') \<mapsto> sample_csv,
               (PROCESSED_DIR, ''a.csv'') \<mapsto> header_only_csv,
               (PROCESSED_DIR, ''a_20240101_120000.csv'') \<mapsto> older_csv],
      store = \<lparr>tbl_columns = None, tbl_rows = []\<rparr>,
      open_conns = 0, ticks = 0, logged = []\<rparr>"


section \<open>Facts about the string primitives\<close>

lemma lower_char_idem: "lower_char (lower_char c) = lower_char c"
  by (auto simp: lower_char_def Let_def)


lemma set_replace:
  "set (replace c r s) = (set s - {c}) \<union> (if c \<in> set s then set r else {})"
  by (induction s) (auto simp: replace_def)

lemma replace_absent: "c \<notin> set s \<Longrightarrow> replace c r s = s"
  by (induction s) (auto simp: replace_def)


lemma lower_fixed: "\<forall>c\<in>set s. lower_char c = c \<Longrightarrow> lower s = s"
  by (simp add: lower_def map_idI)

lemma set_strip: "set (strip s) \<subseteq> set s"
proof
  fix x
  assume "x \<in> set (strip s)"
  then have "x \<in> set (dropWhile isspace (rev (dropWhile isspace s)))"
    by (simp add: strip_def)
  then have "x \<in> set (rev (dropWhile isspace s))"
    by (rule set_dropWhileD)
  then have "x \<in> set (dropWhile isspace s)"
    by simp
  then show "x \<in> set s"
    by (rule set_dropWhileD)
qed


lemma startswith_iff: "startswith s p \<longleftrightarrow> (\<exists>post. s = p @ post)"
  by (induction s p rule: startswith.induct) auto

lemma contains_iff: "contains s sub \<longleftrightarrow> (\<exists>pre post. s = pre @ sub @ post)"
proof (induction s)
  case Nil
  then show ?case by auto
next
  case (Cons c cs)
  show ?case
  proof
    assume "contains (c # cs) sub"
    then consider "startswith (c # cs) sub" | "contains cs sub"
      by auto
    then show "\<exists>pre post. c # cs = pre @ sub @ post"
    proof cases
      case 1
      then obtain post where "c # cs = sub @ post"
        by (auto simp: startswith_iff)
      then have "c # cs = [] @ sub @ post"
        by simp
      then show ?thesis
        by blast
    next
      case 2
      then obtain pre post where "cs = pre @ sub @ post"
        using Cons.IH by auto
      then have "c # cs = (c # pre) @ sub @ post"
        by simp
      then show ?thesis
        by blast
    qed
  next
    assume "\<exists>pre post. c # cs = pre @ sub @ post"
    then obtain pre post where eq: "c # cs = pre @ sub @ post"
      by blast
    show "contains (c # cs) sub"
    proof (cases pre)
      case Nil
      with eq have "startswith (c # cs) sub"
        by (auto simp: startswith_iff)
      then show ?thesis
        by simp
    next
      case (Cons a pre')
      with eq have "cs = pre' @ sub @ post"
        by simp
      then have "contains cs sub"
        using Cons.IH by blast
      then show ?thesis
        by simp
    qed
  qed
qed

section \<open>Header normalization\<close>

lemma canonical_plus: "c \<in> set ''plus_'' \<Longrightarrow> canonical_char c"
  by (auto simp: canonical_char_def lower_char_def)

lemma canonical_unknown: "c \<in> set ''unknown_col'' \<Longrightarrow> canonical_char c"
  by (auto simp: canonical_char_def lower_char_def)

lemma clean_name_canonical:
  assumes "c \<in> set (clean_name h)"
  shows "canonical_char c"
proof (cases "h = None \<or> h = Some []")
  case True
  then have "clean_name h = ''unknown_col''"
    by (auto simp: clean_name_def)
  with assms show ?thesis
    using canonical_unknown by simp
next
  case False
  then obtain s where h: "h = Some s" and s: "s \<noteq> []"
    by auto
  from assms have "c \<in> set (lower (strip s)) - set '' -./+()'' \<or> c \<in> set ''plus_''"
    by (auto simp: clean_name_def h s set_replace split: if_splits)
  then show ?thesis
  proof
    assume a: "c \<in> set (lower (strip s)) - set '' -./+()''"
    then obtain x where "c = lower_char x"
      by (auto simp: lower_def)
    then have "lower_char c = c"
      by (simp add: lower_char_idem)
    with a show ?thesis
      by (simp add: canonical_char_def)
  next
    assume "c \<in> set ''plus_''"
    then show ?thesis
      by (rule canonical_plus)
  qed
qed

lemma clean_name_of_canonical:
  assumes "\<forall>c\<in>set r. canonical_char c" and "r \<noteq> []"
  shows "clean_name (Some r) = strip r"
proof -
  have sub: "\<forall>c\<in>set (strip r). canonical_char c"
    using assms(1) set_strip by blast
  then have low: "lower (strip r) = strip r"
    by (simp add: lower_fixed canonical_char_def)
  have "\<And>c. c \<in> set '' -./+()'' \<Longrightarrow> c \<notin> set (strip r)"
    using sub by (auto simp: canonical_char_def)
  then show ?thesis
    by (simp add: clean_name_def assms(2) low replace_absent)
qed

text \<open>
  Claim C1, as amended. Normalizing a normalized name gives the same name exactly when
  that name is not empty and has no white space at either end: \<open>clean_name\<close> tests
  \<open>not name\<close> before it cleans, so a name cleaned down to nothing is not replaced by
  the fallback constant, and white space laid bare by the removal of a parenthesis is
  trimmed by the second pass only.
\<close>

theorem clean_name_idempotent_iff:
  "clean_name (Some (clean_name h)) = clean_name h \<longleftrightarrow>
     clean_name h \<noteq> [] \<and> strip (clean_name h) = clean_name h"
proof (cases "clean_name h = []")
  case True
  then show ?thesis
    by (simp add: clean_name_def)
next
  case False
  have "clean_name (Some (clean_name h)) = strip (clean_name h)"
    using clean_name_canonical False by (intro clean_name_of_canonical) blast+
  with False show ?thesis
    by simp
qed

text \<open>The header \<open>Test Date (UTC)\<close> is one whose name is stable.\<close>

theorem clean_name_idempotent_witness:
  "clean_name (Some ''Test Date (UTC)'') = ''test_date_utc'' \<and>
   clean_name (Some (clean_name (Some ''Test Date (UTC)''))) = clean_name (Some ''Test Date (UTC)'')"
proof -
  have v: "clean_name (Some ''Test Date (UTC)'') = ''test_date_utc''"
    by code_simp
  have "strip ''test_date_utc'' = ''test_date_utc''"
    by code_simp
  with v show ?thesis
    using clean_name_idempotent_iff [of "Some ''Test Date (UTC)''"] by simp
qed

text \<open>
  Claim C1 as the specification states it fails at the header \<open>()\<close>: its name is the
  empty string, and the name of the empty string is \<open>unknown_col\<close>.
\<close>

theorem clean_name_not_idempotent:
  "clean_name (Some (clean_name (Some ''()''))) \<noteq> clean_name (Some ''()'')"
  by code_simp

section \<open>The operations of the specification and those of the code\<close>



















section \<open>Value normalization\<close>

text \<open>
  Claim C4. \<open>parse_value\<close> gives \<open>None\<close> for an absent cell and for a cell whose
  trimmed form is one of the five markers, compared as strings, so case matters; any
  other cell comes back as its trimmed string.
\<close>

theorem parse_value_sentinels:
  "parse_value None = None \<and>
   (strip s \<in> {'''', ''N/A'', ''n/a'', ''NaN'', ''nan''} \<longrightarrow> parse_value (Some s) = None) \<and>
   (strip s \<notin> {'''', ''N/A'', ''n/a'', ''NaN'', ''nan''} \<longrightarrow> parse_value (Some s) = Some (strip s))"
  by (simp add: parse_value_def null_markers_def Let_def)

text \<open>\<open>N/A\<close> between blanks is a marker; \<open>NAN\<close> in capitals is not.\<close>

theorem parse_value_sentinels_witness:
  "strip '' N/A '' \<in> {'''', ''N/A'', ''n/a'', ''NaN'', ''nan''} \<and>
   parse_value (Some '' N/A '') = None \<and>
   strip '' NAN'' \<notin> {'''', ''N/A'', ''n/a'', ''NaN'', ''nan''} \<and>
   parse_value (Some '' NAN'') = Some ''NAN''"
proof -
  have a: "strip '' N/A '' = ''N/A''" and b: "strip '' NAN'' = ''NAN''"
    by code_simp+
  show ?thesis
    using parse_value_sentinels [of "'' N/A ''"] parse_value_sentinels [of "'' NAN''"]
    by (simp add: a b)
qed

section \<open>Rows\<close>




lemma clean_cells_examples:
  "clean_cells 3 [''a'', ''b''] = [Some ''a'', Some ''b'', None] \<and>
   clean_cells 3 [''a'', ''b'', ''c'', ''d'', ''e''] = [Some ''a'', Some ''b'', Some ''c'']"
  by code_simp

section \<open>Type inference\<close>

lemma numeric_scan_flags:
  "numeric_scan parses vs is_numeric has_data =
     (is_numeric \<and> (\<forall>v. Some v \<in> set vs \<longrightarrow> parses v),
      has_data \<or> (\<exists>v. Some v \<in> set vs))"
  by (induction parses vs is_numeric has_data rule: numeric_scan.induct) auto

text \<open>
  Claim C2. \<open>infer_sql_type\<close> answers \<open>TIMESTAMP\<close> when the header name contains
  \<open>date\<close> or \<open>time\<close>; otherwise \<open>DOUBLE PRECISION\<close> when some value is not null
  and every value that is not null parses as a float; otherwise \<open>TEXT\<close>, which
  includes the column with no value other than null.
\<close>

theorem infer_sql_type_priority:
  "infer_sql_type parses h vs =
     (if contains h ''date'' \<or> contains h ''time'' then TIMESTAMP
      else if (\<exists>v. Some v \<in> set vs) \<and> (\<forall>v. Some v \<in> set vs \<longrightarrow> parses v)
           then DOUBLE_PRECISION
      else TEXT)"
  by (auto simp: infer_sql_type_def numeric_scan_flags)

text \<open>The four examples of the specification.\<close>

theorem infer_sql_type_priority_witness:
  "infer_sql_type sample_float ''test_date'' [Some ''2024-01-01'', Some ''2024-01-02''] = TIMESTAMP \<and>
   infer_sql_type sample_float ''amount'' [Some ''1.5'', Some ''2'', None] = DOUBLE_PRECISION \<and>
   infer_sql_type sample_float ''amount'' [Some ''1.5'', Some ''abc''] = TEXT \<and>
   infer_sql_type sample_float ''notes'' [None, None] = TEXT"
proof -
  have "contains ''test_date'' ''date''" "\<not> contains ''amount'' ''date''"
    "\<not> contains ''amount'' ''time''" "\<not> contains ''notes'' ''date''"
    "\<not> contains ''notes'' ''time''"
    by code_simp+
  then show ?thesis
    unfolding infer_sql_type_priority by (auto simp: sample_float_def)
qed

section \<open>Column types\<close>

lemma header_names_nth:
  "i < length original_headers \<Longrightarrow>
   header_names original_headers ! i = clean_name (Some (original_headers ! i))"
  by (simp add: header_names_def nth_append)

lemma column_types_nth:
  "i < length headers \<Longrightarrow>
   column_types parses n headers raw_data ! i = column_type parses n raw_data (i, headers ! i)"
  by (simp add: column_types_def nth_enumerate_eq)

text \<open>
  Claim C10. In the loop that assigns the column types, the comparison of the name with
  \<open>source_filename\<close> and \<open>import_timestamp\<close> comes before the test of the position,
  so a data column whose normalized name is one of the two gets \<open>TEXT\<close>, respectively
  \<open>TIMESTAMP\<close>, whatever its values are.
\<close>

theorem metadata_named_column_type:
  assumes "i < length original_headers"
  shows "(clean_name (Some (original_headers ! i)) = ''source_filename'' \<longrightarrow>
            column_types parses (length original_headers) (header_names original_headers)
              raw_data ! i = TEXT) \<and>
         (clean_name (Some (original_headers ! i)) = ''import_timestamp'' \<longrightarrow>
            column_types parses (length original_headers) (header_names original_headers)
              raw_data ! i = TIMESTAMP)"
proof -
  have "i < length (header_names original_headers)"
    using assms by (simp add: header_names_def)
  then show ?thesis
    using assms by (simp add: column_types_nth header_names_nth column_type_def)
qed

text \<open>
  A column headed \<open>Source Filename\<close> with numeric values only: its type is \<open>TEXT\<close>,
  where inference on the same values gives \<open>DOUBLE PRECISION\<close>.
\<close>

theorem metadata_named_column_type_witness:
  "(0::nat) < length [''Source Filename'', ''qty''] \<and>
   clean_name (Some ([''Source Filename'', ''qty''] ! 0)) = ''source_filename'' \<and>
   column_types sample_float 2 (header_names [''Source Filename'', ''qty''])
     (read_rows 2 ''f.csv'' noon [[''1'', ''2''], [''1.5'', ''10.5'']]) ! 0 = TEXT \<and>
   infer_sql_type sample_float ''source_filename'' [Some ''1'', Some ''1.5''] = DOUBLE_PRECISION"
proof -
  have c: "clean_name (Some ([''Source Filename'', ''qty''] ! 0)) = ''source_filename''"
    by code_simp
  have i: "infer_sql_type sample_float ''source_filename'' [Some ''1'', Some ''1.5'']
             = DOUBLE_PRECISION"
    by code_simp
  show ?thesis
    using metadata_named_column_type [of 0 "[''Source Filename'', ''qty'']" sample_float
        "read_rows 2 ''f.csv'' noon [[''1'', ''2''], [''1.5'', ''10.5'']]"] c i
    by (simp add: numeral_2_eq_2)
qed

section \<open>Rows and their metadata\<close>

lemma read_rows_shape:
  "row \<in> set (read_rows n filename now rws) \<Longrightarrow>
   \<exists>vals. length vals = n \<and> row = map Val vals @ [Val (Some filename), Stamp now]"
proof (induction rws)
  case Nil
  then show ?case by simp
next
  case (Cons r rws)
  show ?case
  proof (cases "row = cleaned_row n filename now r \<and> r \<noteq> []")
    case True
    have "length (clean_cells n r) = n"
      by (simp add: clean_cells_def pad_row_def)
    with True show ?thesis
      unfolding cleaned_row_def by blast
  next
    case False
    with Cons.prems have "row \<in> set (read_rows n filename now rws)"
      by (auto split: if_splits)
    then show ?thesis
      by (rule Cons.IH)
  qed
qed

text \<open>
  Claim C7. When a file is read, the header names are the normalized headers followed by
  \<open>source_filename\<close> and \<open>import_timestamp\<close>, in this order, and every row is its
  data cells, one per header, followed by exactly two values: the file name and the
  time. The clock is read once for the file, so the time is the same in every row.
\<close>

theorem load_csv_metadata:
  assumes "load_csv e p w = (Inr (headers, n, raw_data), w1)"
  shows "\<exists>original_headers.
           n = length original_headers \<and>
           headers = map (\<lambda>h. clean_name (Some h)) original_headers
                       @ [''source_filename'', ''import_timestamp''] \<and>
           ticks w1 = Suc (ticks w) \<and>
           (\<forall>row\<in>set raw_data. \<exists>vals. length vals = n \<and>
              row = map Val vals @ [Val (Some (snd p)), Stamp (clock e (ticks w))])"
proof -
  from assms obtain original_headers rest where
    f: "files w p = Some (original_headers # rest)"
    by (auto simp: load_csv_def Let_def split: option.splits list.splits if_splits)
  with assms have
    "n = length original_headers" "headers = header_names original_headers"
    "raw_data = read_rows (length original_headers) (snd p) (clock e (ticks w)) rest"
    "w1 = w\<lparr>ticks := Suc (ticks w)\<rparr>"
    by (auto simp: load_csv_def Let_def split: if_splits)
  then show ?thesis
    using read_rows_shape by (auto simp: header_names_def)
qed

text \<open>The file \<open>a.csv\<close> of the sample: three columns, two rows, one reading of the clock.\<close>

theorem load_csv_metadata_witness:
  "load_csv sample_env (INPUT_DIR, ''a.csv'') sample_world =
     (Inr ([''id'', ''amount'', ''date'', ''source_filename'', ''import_timestamp''], 3,
           [[Val (Some ''1''), Val (Some ''10.5''), Val (Some ''2024-01-01''),
             Val (Some ''a.csv''), Stamp noon],
            [Val (Some ''2''), Val None, Val (Some ''2024-01-02''),
             Val (Some ''a.csv''), Stamp noon]]),
      sample_world\<lparr>ticks := Suc (ticks sample_world)\<rparr>) \<and>
   (\<exists>vals. length vals = 3 \<and>
      [Val (Some ''2''), Val None, Val (Some ''2024-01-02''), Val (Some ''a.csv''), Stamp noon]
        = map Val vals @ [Val (Some ''a.csv''), Stamp (clock sample_env (ticks sample_world))])"
proof -
  have h: "header_names [''id'', ''amount'', ''date'']
             = [''id'', ''amount'', ''date'', ''source_filename'', ''import_timestamp'']"
    by code_simp
  have r: "read_rows 3 ''a.csv'' noon
             [[''1'', ''10.5'', ''2024-01-01''], [''2'', '''', ''2024-01-02'']]
           = [[Val (Some ''1''), Val (Some ''10.5''), Val (Some ''2024-01-01''),
               Val (Some ''a.csv''), Stamp noon],
              [Val (Some ''2''), Val None, Val (Some ''2024-01-02''),
               Val (Some ''a.csv''), Stamp noon]]"
    by code_simp
  have l: "load_csv sample_env (INPUT_DIR, ''a.csv'') sample_world =
     (Inr ([''id'', ''amount'', ''date'', ''source_filename'', ''import_timestamp''], 3,
           [[Val (Some ''1''), Val (Some ''10.5''), Val (Some ''2024-01-01''),
             Val (Some ''a.csv''), Stamp noon],
            [Val (Some ''2''), Val None, Val (Some ''2024-01-02''),
             Val (Some ''a.csv''), Stamp noon]]),
      sample_world\<lparr>ticks := Suc (ticks sample_world)\<rparr>)"
    unfolding load_csv_def
    by (simp add: sample_world_def sample_env_def sample_csv_def Let_def h r [unfolded numeral_3_eq_3]
          del: read_rows.simps)
  show ?thesis
    using load_csv_metadata [OF l] l by auto
qed

section \<open>What each step of process\_file leaves unchanged\<close>

lemma load_csv_frame:
  "load_csv e p w = (r, w1) \<Longrightarrow>
   files w1 = files w \<and> store w1 = store w \<and> open_conns w1 = open_conns w \<and>
   logged w1 = logged w"
  by (auto simp: load_csv_def Let_def split: option.splits list.splits if_splits)

lemma pf_try_frame:
  assumes "pf_try e p w = (r, conn, w1)"
  shows "files w1 = files w \<and>
         open_conns w1 = (if conn = None then open_conns w else Suc (open_conns w)) \<and>
         (\<forall>x. r = Inl x \<longrightarrow> store w1 = store w) \<and>
         (\<forall>b. r = Inr b \<longrightarrow> b \<and> conn \<noteq> None)"
proof -
  obtain r0 w0 where l: "load_csv e p w = (r0, w0)"
    by (cases "load_csv e p w")
  note fr = load_csv_frame [OF l]
  show ?thesis
  proof (cases r0)
    case (Inl x)
    with assms l fr show ?thesis
      by (auto simp: pf_try_def)
  next
    case (Inr t)
    obtain headers n raw_data where t: "t = (headers, n, raw_data)"
      by (cases t)
    from assms l fr Inr t show ?thesis
      by (auto simp: pf_try_def Let_def split: if_splits)
  qed
qed


lemma process_file_frame:
  assumes "process_file e p w = (r, w1)"
  shows "files w1 = files w \<and> open_conns w1 = open_conns w"
proof -
  obtain r0 conn w0 where t: "pf_try e p (w\<lparr>logged := logged w @ [Processing p]\<rparr>) = (r0, conn, w0)"
    by (cases "pf_try e p (w\<lparr>logged := logged w @ [Processing p]\<rparr>)")
  note fr = pf_try_frame [OF t]
  show ?thesis
  proof (cases r0)
    case (Inr b)
    with assms t have "w1 = pf_finally conn w0"
      by (simp add: process_file_def)
    with fr show ?thesis
      by (cases conn) (simp_all add: pf_finally_def)
  next
    case (Inl x)
    with assms t have "w1 = pf_finally conn (w0\<lparr>logged := logged w0 @ [ProcessError p x]\<rparr>)"
      by (cases conn) (auto simp: process_file_def Let_def split: if_splits)
    with fr show ?thesis
      by (cases conn) (simp_all add: pf_finally_def)
  qed
qed


lemma process_file_on_error:
  assumes "pf_try e p (w\<lparr>logged := logged w @ [Processing p]\<rparr>) = (Inl x, conn, w0)"
  shows "store (snd (process_file e p w)) = store w \<and>
         fst (process_file e p w) =
           (if conn \<noteq> None \<and> raises e p Rollback then Inl (DbError Rollback) else Inr False)"
proof -
  have "store w0 = store w"
    using pf_try_frame [OF assms] by simp
  then show ?thesis
    using assms by (cases conn) (simp_all add: process_file_def pf_finally_def Let_def)
qed


section \<open>Moving a file\<close>

lemma dest_path_for_frame:
  assumes "dest_path_for e name d w = (dp, w1)"
  shows "fst dp = d \<and> files w1 = files w \<and> store w1 = store w \<and> open_conns w1 = open_conns w"
proof (cases "files w (d, name) = None")
  case True
  with assms show ?thesis
    by (auto simp: dest_path_for_def)
next
  case False
  obtain base ext where "splitext name = (base, ext)"
    by (cases "splitext name")
  with False assms show ?thesis
    by (auto simp: dest_path_for_def)
qed

lemma move_file_effect:
  assumes "files w src = Some content" and "fst src \<noteq> d"
  shows "files (move_file e src d w) src = None \<and>
         files (move_file e src d w) (fst (dest_path_for e (snd src) d w)) = Some content \<and>
         fst (fst (dest_path_for e (snd src) d w)) = d"
proof -
  obtain dp w1 where dp: "dest_path_for e (snd src) d w = (dp, w1)"
    by (cases "dest_path_for e (snd src) d w")
  note fr = dest_path_for_frame [OF dp]
  with assms have ne: "src \<noteq> dp"
    by auto
  from assms fr have "shutil_move src dp w1 = Inr (w1\<lparr>files := (files w1)(src := None, dp \<mapsto> content)\<rparr>)"
    by (simp add: shutil_move_def)
  with dp ne fr show ?thesis
    by (simp add: move_file_def)
qed


lemma move_file_frame:
  "store (move_file e src d w) = store w \<and> open_conns (move_file e src d w) = open_conns w"
proof -
  obtain dp w1 where dp: "dest_path_for e (snd src) d w = (dp, w1)"
    by (cases "dest_path_for e (snd src) d w")
  note fr = dest_path_for_frame [OF dp]
  show ?thesis
  proof (cases "files w1 src")
    case None
    with dp fr show ?thesis
      by (simp add: move_file_def shutil_move_def)
  next
    case (Some content)
    with dp fr show ?thesis
      by (simp add: move_file_def shutil_move_def)
  qed
qed


lemma take_before_separator: "take (length (xs @ c # ys) - length ys - 1) (xs @ c # ys) = xs"
  by simp

lemma splitext_concat:
  assumes "splitext name = (base, ext)"
  shows "base @ ext = name"
proof (cases "ext = []")
  case True
  with assms show ?thesis
    by (auto simp: splitext_def Let_def split: if_splits)
next
  case False
  let ?P = "\<lambda>c. c \<noteq> CHR ''.''"
  obtain tw where tw: "tw = rev (takeWhile ?P (rev name))"
    by simp
  from False assms have dot: "CHR ''.'' \<in> set name"
    and ext: "ext = CHR ''.'' # tw"
    and base: "base = take (length name - length tw - 1) name"
    unfolding tw by (auto simp: splitext_def Let_def split: if_splits)
  from dot have ne: "dropWhile ?P (rev name) \<noteq> []"
    by simp
  then have "\<not> ?P (hd (dropWhile ?P (rev name)))"
    by (rule hd_dropWhile)
  with ne obtain d where d: "dropWhile ?P (rev name) = CHR ''.'' # d"
    by (cases "dropWhile ?P (rev name)") auto
  have "rev name = rev tw @ CHR ''.'' # d"
    using takeWhile_dropWhile_id [of ?P "rev name"] unfolding d tw rev_rev_ident by simp
  then have "rev (rev name) = rev (rev tw @ CHR ''.'' # d)"
    by (rule arg_cong)
  then have name: "name = rev d @ CHR ''.'' # tw"
    by simp
  have "base = rev d"
    unfolding base by (subst (1 2) name) (rule take_before_separator)
  with ext name show ?thesis
    by simp
qed

lemma digit_in_digits: "digit n \<in> set ''0123456789''"
proof -
  have "n mod 10 < length ''0123456789''"
    by simp
  then show ?thesis
    unfolding digit_def by (rule nth_mem)
qed

lemma strftime_shape:
  "length (strftime t) = 15 \<and> strftime t ! 8 = CHR ''_'' \<and>
   set (take 8 (strftime t)) \<union> set (drop 9 (strftime t)) \<subseteq> set ''0123456789''"
proof -
  define D where "D = set ''0123456789''"
  have dg: "\<And>n. digit n \<in> D"
    unfolding D_def by (rule digit_in_digits)
  have "length (strftime t) = 15 \<and> strftime t ! 8 = CHR ''_'' \<and>
        set (take 8 (strftime t)) \<union> set (drop 9 (strftime t)) \<subseteq> D"
    by (simp add: strftime_def two_digits_def dg)
  then show ?thesis
    unfolding D_def .
qed


text \<open>
  What \<open>move_file\<close> does on a collision: the destination is the base name, an
  underscore, the time of the move and the extension; the file that holds the original
  name in the destination directory stays as it is, and the source arrives under the new
  name after one move.
\<close>

lemma move_file_collision:
  assumes taken: "files w (d, snd src) = Some old"
    and present: "files w src = Some content"
    and other: "fst src \<noteq> d"
  shows "\<exists>base ext. splitext (snd src) = (base, ext) \<and>
           fst (dest_path_for e (snd src) d w)
             = (d, base @ ''_'' @ strftime (clock e (ticks w)) @ ext) \<and>
           files (move_file e src d w) (d, snd src) = Some old \<and>
           files (move_file e src d w) (d, base @ ''_'' @ strftime (clock e (ticks w)) @ ext)
             = Some content \<and>
           files (move_file e src d w) src = None"
proof -
  obtain base ext where sp: "splitext (snd src) = (base, ext)"
    by (cases "splitext (snd src)")
  let ?dst = "(d, base @ ''_'' @ strftime (clock e (ticks w)) @ ext)"
  have dp: "dest_path_for e (snd src) d w = (?dst, w\<lparr>ticks := Suc (ticks w)\<rparr>)"
    using taken sp by (simp add: dest_path_for_def)
  have "length (base @ ''_'' @ strftime (clock e (ticks w)) @ ext) \<noteq> length (base @ ext)"
    by simp
  then have "base @ ''_'' @ strftime (clock e (ticks w)) @ ext \<noteq> snd src"
    using splitext_concat [OF sp] by metis
  then have ne: "?dst \<noteq> (d, snd src)"
    by simp
  have ne2: "src \<noteq> (d, snd src)"
    using other by (cases src) auto
  have ne3: "src \<noteq> ?dst"
    using other by (cases src) auto
  have mv: "move_file e src d w =
      w\<lparr>ticks := Suc (ticks w), files := (files w)(src := None, ?dst \<mapsto> content),
        logged := logged w @ [Moved ?dst]\<rparr>"
    using present dp by (simp add: move_file_def shutil_move_def)
  show ?thesis
    using sp dp ne ne2 ne3 taken unfolding mv by (intro exI [of _ base] exI [of _ ext]) simp
qed

section \<open>Errors at the file boundary\<close>

lemma for_files_step:
  assumes "\<not> startswith f ''.''" and "fst (process_file e (INPUT_DIR, f) w) = Inr False"
  shows "for_files e (f # rest) w =
           for_files e rest (move_file e (INPUT_DIR, f) ERRORS_DIR (snd (process_file e (INPUT_DIR, f) w)))"
  using assms by (cases "process_file e (INPUT_DIR, f) w") simp

text \<open>
  What the handler of \<open>process_file\<close> does in general. The connection count is the
  same after \<open>process_file\<close> as before it, on every path. When the \<open>try\<close> block
  raises, the committed table is what it was. Unless a connection is open and its
  \<open>rollback\<close> raises in turn, \<open>process_file\<close> returns \<open>False\<close>, the loop hands the
  file to \<open>move_file\<close> with the error directory (where a file that is present in the
  input directory arrives, whether under its own name or the name with the time, and
  leaves the input directory) and goes on with the remaining files of the listing. When
  the \<open>rollback\<close> raises, that exception leaves \<open>process_file\<close>, no file is moved, and
  the loop over the listing ends there.
\<close>

lemma process_file_error_isolation:
  fixes e :: env and f :: string and w :: world and rest :: "string list"
  defines "p \<equiv> (INPUT_DIR, f)"
  defines "t \<equiv> pf_try e p (w\<lparr>logged := logged w @ [Processing p]\<rparr>)"
  defines "w1 \<equiv> snd (process_file e p w)"
  defines "w2 \<equiv> move_file e p ERRORS_DIR w1"
  shows "open_conns w1 = open_conns w \<and>
         (\<forall>x. fst t = Inl x \<longrightarrow>
            store w1 = store w \<and>
            (fst (snd t) = None \<or> \<not> raises e p Rollback \<longrightarrow>
               fst (process_file e p w) = Inr False \<and>
               store w2 = store w \<and> open_conns w2 = open_conns w \<and>
               (\<not> startswith f ''.'' \<longrightarrow> for_files e (f # rest) w = for_files e rest w2) \<and>
               (\<forall>content. files w p = Some content \<longrightarrow>
                  files w2 p = None \<and>
                  fst (fst (dest_path_for e f ERRORS_DIR w1)) = ERRORS_DIR \<and>
                  files w2 (fst (dest_path_for e f ERRORS_DIR w1)) = Some content)) \<and>
            (fst (snd t) \<noteq> None \<and> raises e p Rollback \<longrightarrow>
               fst (process_file e p w) = Inl (DbError Rollback) \<and>
               files w1 = files w \<and>
               (\<not> startswith f ''.'' \<longrightarrow>
                  for_files e (f # rest) w = (Some (DbError Rollback), w1))))"
proof -
  have fr: "files w1 = files w \<and> open_conns w1 = open_conns w"
    unfolding w1_def by (rule process_file_frame [of e p w "fst (process_file e p w)"]) simp
  have err: "store w1 = store w \<and>
             (fst (snd t) = None \<or> \<not> raises e p Rollback \<longrightarrow>
               fst (process_file e p w) = Inr False \<and>
               store w2 = store w \<and> open_conns w2 = open_conns w \<and>
               (\<not> startswith f ''.'' \<longrightarrow> for_files e (f # rest) w = for_files e rest w2) \<and>
               (\<forall>content. files w p = Some content \<longrightarrow>
                  files w2 p = None \<and>
                  fst (fst (dest_path_for e f ERRORS_DIR w1)) = ERRORS_DIR \<and>
                  files w2 (fst (dest_path_for e f ERRORS_DIR w1)) = Some content)) \<and>
             (fst (snd t) \<noteq> None \<and> raises e p Rollback \<longrightarrow>
               fst (process_file e p w) = Inl (DbError Rollback) \<and>
               files w1 = files w \<and>
               (\<not> startswith f ''.'' \<longrightarrow>
                  for_files e (f # rest) w = (Some (DbError Rollback), w1)))"
    if x: "fst t = Inl x" for x
  proof -
    obtain conn w0 where t: "pf_try e p (w\<lparr>logged := logged w @ [Processing p]\<rparr>) = (Inl x, conn, w0)"
      using x unfolding t_def by (cases "pf_try e p (w\<lparr>logged := logged w @ [Processing p]\<rparr>)") auto
    note oe = process_file_on_error [OF t]
    have st: "store w1 = store w"
      using oe by (simp add: w1_def)
    have handled: "fst (process_file e p w) = Inr False \<and>
               store w2 = store w \<and> open_conns w2 = open_conns w \<and>
               (\<not> startswith f ''.'' \<longrightarrow> for_files e (f # rest) w = for_files e rest w2) \<and>
               (\<forall>content. files w p = Some content \<longrightarrow>
                  files w2 p = None \<and>
                  fst (fst (dest_path_for e f ERRORS_DIR w1)) = ERRORS_DIR \<and>
                  files w2 (fst (dest_path_for e f ERRORS_DIR w1)) = Some content)"
      if ok: "fst (snd t) = None \<or> \<not> raises e p Rollback"
    proof -
      from ok t have res: "fst (process_file e p w) = Inr False"
        using oe by (auto simp: t_def)
      have mv: "store w2 = store w \<and> open_conns w2 = open_conns w"
        using move_file_frame [of e p ERRORS_DIR w1] st fr by (simp add: w2_def)
      have loop: "for_files e (f # rest) w = for_files e rest w2" if "\<not> startswith f ''.''"
        using for_files_step [OF that, of e w rest] res by (simp add: p_def w2_def w1_def)
      have route: "files w2 p = None \<and>
                  fst (fst (dest_path_for e f ERRORS_DIR w1)) = ERRORS_DIR \<and>
                  files w2 (fst (dest_path_for e f ERRORS_DIR w1)) = Some content"
        if "files w p = Some content" for content
        using move_file_effect [of w1 p content ERRORS_DIR e] that fr
        by (simp add: w2_def p_def)
      from res mv loop route show ?thesis
        by blast
    qed
    have escaped: "fst (process_file e p w) = Inl (DbError Rollback) \<and>
               files w1 = files w \<and>
               (\<not> startswith f ''.'' \<longrightarrow>
                  for_files e (f # rest) w = (Some (DbError Rollback), w1))"
      if bad: "fst (snd t) \<noteq> None \<and> raises e p Rollback"
    proof -
      from bad t have res: "fst (process_file e p w) = Inl (DbError Rollback)"
        using oe by (auto simp: t_def)
      then have "process_file e (INPUT_DIR, f) w = (Inl (DbError Rollback), w1)"
        unfolding w1_def p_def by (cases "process_file e (INPUT_DIR, f) w") simp
      then have "for_files e (f # rest) w = (Some (DbError Rollback), w1)"
        if "\<not> startswith f ''.''"
        using that by simp
      with res fr show ?thesis
        by blast
    qed
    from st handled escaped show ?thesis
      by blast
  qed
  from fr err show ?thesis
    by blast
qed

text \<open>
  The insert of \<open>a.csv\<close> is rejected and the rollback succeeds: the file goes to the
  error directory and the loop goes on with \<open>b.csv\<close>. When the rollback raises as well,
  the loop ends with the exception.
\<close>

lemma process_file_error_isolation_sample:
  "fst (pf_try insert_fails_env (INPUT_DIR, ''a.csv'')
         (sample_world\<lparr>logged := logged sample_world @ [Processing (INPUT_DIR, ''a.csv'')]\<rparr>))
     = Inl (DbError Insert) \<and>
   files sample_world (INPUT_DIR, ''a.csv'') = Some sample_csv \<and>
   fst (process_file insert_fails_env (INPUT_DIR, ''a.csv'') sample_world) = Inr False \<and>
   store (snd (process_file insert_fails_env (INPUT_DIR, ''a.csv'') sample_world))
     = store sample_world \<and>
   for_files insert_fails_env [''a.csv'', ''b.csv''] sample_world
     = for_files insert_fails_env [''b.csv'']
         (move_file insert_fails_env (INPUT_DIR, ''a.csv'') ERRORS_DIR
            (snd (process_file insert_fails_env (INPUT_DIR, ''a.csv'') sample_world))) \<and>
   files (move_file insert_fails_env (INPUT_DIR, ''a.csv'') ERRORS_DIR
            (snd (process_file insert_fails_env (INPUT_DIR, ''a.csv'') sample_world)))
     (INPUT_DIR, ''a.csv'') = None \<and>
   fst (pf_try lost_connection_env (INPUT_DIR, ''a.csv'')
         (sample_world\<lparr>logged := logged sample_world @ [Processing (INPUT_DIR, ''a.csv'')]\<rparr>))
     = Inl (DbError Insert) \<and>
   for_files lost_connection_env [''a.csv'', ''b.csv''] sample_world
     = (Some (DbError Rollback),
        snd (process_file lost_connection_env (INPUT_DIR, ''a.csv'') sample_world))"
proof -
  have a: "fst (pf_try insert_fails_env (INPUT_DIR, ''a.csv'')
         (sample_world\<lparr>logged := logged sample_world @ [Processing (INPUT_DIR, ''a.csv'')]\<rparr>))
     = Inl (DbError Insert)"
    by code_simp
  have b: "\<not> raises insert_fails_env (INPUT_DIR, ''a.csv'') Rollback"
    by code_simp
  have c: "\<not> startswith ''a.csv'' ''.''"
    by code_simp
  have d: "files sample_world (INPUT_DIR, ''a.csv'') = Some sample_csv"
    by (simp add: sample_world_def)
  have a': "fst (pf_try lost_connection_env (INPUT_DIR, ''a.csv'')
         (sample_world\<lparr>logged := logged sample_world @ [Processing (INPUT_DIR, ''a.csv'')]\<rparr>))
     = Inl (DbError Insert)"
    by code_simp
  have b': "fst (snd (pf_try lost_connection_env (INPUT_DIR, ''a.csv'')
         (sample_world\<lparr>logged := logged sample_world @ [Processing (INPUT_DIR, ''a.csv'')]\<rparr>)))
     \<noteq> None"
    by code_simp
  have c': "raises lost_connection_env (INPUT_DIR, ''a.csv'') Rollback"
    by code_simp
  have first: "fst (process_file insert_fails_env (INPUT_DIR, ''a.csv'') sample_world) = Inr False \<and>
   store (snd (process_file insert_fails_env (INPUT_DIR, ''a.csv'') sample_world))
     = store sample_world \<and>
   for_files insert_fails_env [''a.csv'', ''b.csv''] sample_world
     = for_files insert_fails_env [''b.csv'']
         (move_file insert_fails_env (INPUT_DIR, ''a.csv'') ERRORS_DIR
            (snd (process_file insert_fails_env (INPUT_DIR, ''a.csv'') sample_world))) \<and>
   files (move_file insert_fails_env (INPUT_DIR, ''a.csv'') ERRORS_DIR
            (snd (process_file insert_fails_env (INPUT_DIR, ''a.csv'') sample_world)))
     (INPUT_DIR, ''a.csv'') = None"
    using process_file_error_isolation [of insert_fails_env "''a.csv''" sample_world "[''b.csv'']"]
      a b c d
    by blast
  have second: "for_files lost_connection_env [''a.csv'', ''b.csv''] sample_world
     = (Some (DbError Rollback),
        snd (process_file lost_connection_env (INPUT_DIR, ''a.csv'') sample_world))"
    using process_file_error_isolation [of lost_connection_env "''a.csv''" sample_world "[''b.csv'']"]
      a' b' c' c
    by blast
  from a d first a' second show ?thesis
    by blast
qed

text \<open>
  Claim C3 fails on the code. Every error is to be caught at the file boundary, the file
  routed to the error directory and the next file processed; the handler of
  \<open>process_file\<close> calls \<open>conn.rollback()\<close> without a guard of its own. Here the
  connection is lost during the insert of \<open>a.csv\<close>: the insert raises, the rollback
  raises, the exception leaves \<open>process_file\<close>, and the cycle ends with \<open>a.csv\<close>
  still in the input directory, nothing in the error directory, and \<open>b.csv\<close> not
  looked at.
\<close>

theorem rollback_failure_escapes:
  "fst (pf_try lost_connection_env (INPUT_DIR, ''a.csv'')
         (sample_world\<lparr>logged := logged sample_world @ [Processing (INPUT_DIR, ''a.csv'')]\<rparr>))
     = Inl (DbError Insert) \<and>
   fst (process_file lost_connection_env (INPUT_DIR, ''a.csv'') sample_world)
     = Inl (DbError Rollback) \<and>
   files (poll_cycle lost_connection_env [''a.csv'', ''b.csv''] sample_world)
     (INPUT_DIR, ''a.csv'') = Some sample_csv \<and>
   files (poll_cycle lost_connection_env [''a.csv'', ''b.csv''] sample_world)
     (ERRORS_DIR, ''a.csv'') = None \<and>
   logged (poll_cycle lost_connection_env [''a.csv'', ''b.csv''] sample_world)
     = [Processing (INPUT_DIR, ''a.csv''),
        ProcessError (INPUT_DIR, ''a.csv'') (DbError Insert),
        CycleError (DbError Rollback)]"
  by code_simp


section \<open>A file without data rows\<close>

lemma read_rows_all_empty:
  "\<forall>row\<in>set rest. row = [] \<Longrightarrow> read_rows n filename now rest = []"
  by (induction rest) simp_all

text \<open>
  Claim C6. A file with a header and no record other than empty ones makes
  \<open>process_file\<close> raise the exception of line 165 (the specification's NoDataError,
  \<open>NoValidData\<close> here), before any connection is made: it is logged,
  \<open>process_file\<close> returns \<open>False\<close>, and the loop moves the file from the input
  directory to the error directory.
\<close>

theorem header_only_file_rejected:
  fixes e :: env and f :: string and w :: world and more :: "string list"
  defines "p \<equiv> (INPUT_DIR, f)"
  defines "w1 \<equiv> snd (process_file e p w)"
  defines "w2 \<equiv> move_file e p ERRORS_DIR w1"
  assumes fpresent: "files w p = Some (original_headers # rest)"
    and empty: "\<forall>row\<in>set rest. row = []"
  shows "fst (process_file e p w) = Inr False \<and>
         logged w1 = logged w @ [Processing p, ProcessError p NoValidData] \<and>
         store w1 = store w \<and> open_conns w1 = open_conns w \<and>
         (\<not> startswith f ''.'' \<longrightarrow> for_files e (f # more) w = for_files e more w2) \<and>
         files w2 p = None \<and>
         fst (fst (dest_path_for e f ERRORS_DIR w1)) = ERRORS_DIR \<and>
         files w2 (fst (dest_path_for e f ERRORS_DIR w1)) = Some (original_headers # rest)"
proof -
  let ?w' = "w\<lparr>logged := logged w @ [Processing p]\<rparr>"
  have "load_csv e p ?w' = (Inl NoValidData, ?w'\<lparr>ticks := Suc (ticks w)\<rparr>)"
    using fpresent read_rows_all_empty [OF empty] by (simp add: load_csv_def Let_def)
  then have t: "pf_try e p ?w' = (Inl NoValidData, None, ?w'\<lparr>ticks := Suc (ticks w)\<rparr>)"
    by (simp add: pf_try_def)
  then have pf: "process_file e p w =
      (Inr False, ?w'\<lparr>ticks := Suc (ticks w),
                     logged := logged w @ [Processing p, ProcessError p NoValidData]\<rparr>)"
    by (simp add: process_file_def pf_finally_def Let_def)
  then have res: "fst (process_file e p w) = Inr False"
    and lg: "logged w1 = logged w @ [Processing p, ProcessError p NoValidData]"
    and st: "store w1 = store w" and oc: "open_conns w1 = open_conns w"
    and fl: "files w1 p = Some (original_headers # rest)"
    using fpresent by (simp_all add: w1_def)
  have loop: "for_files e (f # more) w = for_files e more w2" if "\<not> startswith f ''.''"
    using for_files_step [OF that, of e w more] res by (simp add: p_def w2_def w1_def)
  have route: "files w2 p = None \<and>
         fst (fst (dest_path_for e f ERRORS_DIR w1)) = ERRORS_DIR \<and>
         files w2 (fst (dest_path_for e f ERRORS_DIR w1)) = Some (original_headers # rest)"
    using move_file_effect [of w1 p "original_headers # rest" ERRORS_DIR e] fl
    by (simp add: w2_def p_def)
  from res lg st oc loop route show ?thesis
    by blast
qed

text \<open>The file \<open>b.csv\<close> of the sample: a header and one empty record.\<close>

theorem header_only_file_rejected_witness:
  "files sample_world (INPUT_DIR, ''b.csv'') = Some ([''id'', ''amount''] # [[]]) \<and>
   fst (process_file sample_env (INPUT_DIR, ''b.csv'') sample_world) = Inr False \<and>
   logged (snd (process_file sample_env (INPUT_DIR, ''b.csv'') sample_world))
     = logged sample_world
       @ [Processing (INPUT_DIR, ''b.csv''), ProcessError (INPUT_DIR, ''b.csv'') NoValidData] \<and>
   files (move_file sample_env (INPUT_DIR, ''b.csv'') ERRORS_DIR
           (snd (process_file sample_env (INPUT_DIR, ''b.csv'') sample_world)))
     (INPUT_DIR, ''b.csv'') = None"
proof -
  have a: "files sample_world (INPUT_DIR, ''b.csv'') = Some ([''id'', ''amount''] # [[]])"
    by (simp add: sample_world_def header_only_csv_def)
  have b: "\<forall>row\<in>set [[]::string list]. row = []"
    by simp
  show ?thesis
    using header_only_file_rejected [OF a b, of sample_env] a b
    by blast
qed

section \<open>A second collision in move\_file\<close>

text \<open>
  Claim C8 fails on the code. \<open>move_file\<close> inserts the time of the move into the name
  when the file's own name is taken, and moves once; it does not look whether the name
  with the time is taken as well. Here the processed directory holds both \<open>a.csv\<close>
  and \<open>a_20240101_120000.csv\<close>, and \<open>a.csv\<close> is moved at that time: the second file is
  replaced by the content of the file moved.
\<close>

theorem move_file_overwrites:
  "files crowded_world (PROCESSED_DIR, ''a_20240101_120000.csv'') = Some older_csv \<and>
   files (move_file sample_env (INPUT_DIR, ''a.csv'') PROCESSED_DIR crowded_world)
     (PROCESSED_DIR, ''a_20240101_120000.csv'') = Some sample_csv \<and>
   older_csv \<noteq> sample_csv \<and>
   logged (move_file sample_env (INPUT_DIR, ''a.csv'') PROCESSED_DIR crowded_world)
     = [Moved (PROCESSED_DIR, ''a_20240101_120000.csv'')]"
  by code_simp

section \<open>The example of the specification, run through one cycle\<close>

lemma sample_cycle:
  "tbl_columns (store (poll_cycle sample_env [''a.csv'', ''b.csv''] sample_world))
     = Some [(''id'', DOUBLE_PRECISION), (''amount'', DOUBLE_PRECISION), (''date'', TIMESTAMP),
             (''source_filename'', TEXT), (''import_timestamp'', TIMESTAMP)] \<and>
   tbl_rows (store (poll_cycle sample_env [''a.csv'', ''b.csv''] sample_world))
     = [[Val (Some ''1''), Val (Some ''10.5''), Val (Some ''2024-01-01''),
         Val (Some ''a.csv''), Stamp noon],
        [Val (Some ''2''), Val None, Val (Some ''2024-01-02''),
         Val (Some ''a.csv''), Stamp noon]] \<and>
   logged (poll_cycle sample_env [''a.csv'', ''b.csv''] sample_world)
     = [Processing (INPUT_DIR, ''a.csv''), Imported 2, Moved (PROCESSED_DIR, ''a.csv''),
        Processing (INPUT_DIR, ''b.csv''), ProcessError (INPUT_DIR, ''b.csv'') NoValidData,
        Moved (ERRORS_DIR, ''b.csv'')] \<and>
   open_conns (poll_cycle sample_env [''a.csv'', ''b.csv''] sample_world) = 0"
  by code_simp

end
